theory Spec2Isabelle
  imports Main "HOL-Library.Sublist"
begin

section \<open>Python strings and lists, as far as scheduleLib uses them\<close>

text \<open>
  A Python \<open>str\<close> is modelled as a \<open>string\<close> (a list of characters) and a Python \<open>int\<close>
  as an unbounded \<open>int\<close>. The backslash cannot be written inside a string literal, so it
  gets a name; the two-character text backslash + question mark is \<open>[backslash, CHR ''?'']\<close>.
\<close>

abbreviation backslash :: char where
  "backslash \<equiv> CHR 0x5C"

text \<open>
  \<open>sub in text\<close> on strings: \<open>sub\<close> occurs somewhere in \<open>text\<close> as a contiguous block.
\<close>

fun str_contains :: "string \<Rightarrow> string \<Rightarrow> bool" where
  "str_contains sub [] = (sub = [])"
| "str_contains sub (c # cs) = (prefix sub (c # cs) \<or> str_contains sub cs)"

text \<open>
  \<open>text.replace(old, new)\<close>: the text is scanned from the left; wherever \<open>old\<close> starts,
  \<open>new\<close> is emitted and the scan resumes after the occurrence (occurrences do not
  overlap, the leftmost wins). With an empty \<open>old\<close>, Python puts \<open>new\<close> before every
  character and at the end.
\<close>

fun str_replace :: "string \<Rightarrow> string \<Rightarrow> string \<Rightarrow> string" where
  "str_replace old new [] = (if old = [] then new else [])"
| "str_replace old new (c # cs) =
     (if old = [] then new @ c # str_replace old new cs
      else if prefix old (c # cs) then new @ str_replace old new (drop (length old - 1) cs)
      else c # str_replace old new cs)"

text \<open>
  \<open>text.split(sep)\<close> for a one-character separator: the pieces between the separators,
  empty pieces included; the result is never empty (\<open>"".split(":") == [""]\<close>).
  \<open>cur\<close> is the piece being read.
\<close>

fun split_from :: "char \<Rightarrow> string \<Rightarrow> string \<Rightarrow> string list" where
  "split_from sep cur [] = [cur]"
| "split_from sep cur (c # cs) =
     (if c = sep then cur # split_from sep [] cs else split_from sep (cur @ [c]) cs)"

definition str_split :: "char \<Rightarrow> string \<Rightarrow> string list" where
  "str_split sep text = split_from sep [] text"

section \<open>Descriptor escaping\<close>

text \<open>
  \<^verbatim>\<open>
  def encodeSafeEventDSC(self, text):
      text = text.replace("\\", "\\\\")
      if(":" in text):
          text = text.replace(":", "\\?")
      return text
  \<close>
\<close>

definition encodeSafeEventDSC :: "string \<Rightarrow> string" where
  "encodeSafeEventDSC text =
     (let text1 = str_replace [backslash] [backslash, backslash] text
      in if str_contains '':'' text1
         then str_replace '':'' [backslash, CHR ''?''] text1
         else text1)"

text \<open>
  \<^verbatim>\<open>
  def decodeSafeEventDSC(self, text):
      if("\\?" in text):
          text = text.replace("\\?", ":")
      text = text.replace("\\\\", "\\")
      return text
  \<close>
\<close>

definition decodeSafeEventDSC :: "string \<Rightarrow> string" where
  "decodeSafeEventDSC text =
     (let text1 = (if str_contains [backslash, CHR ''?''] text
                   then str_replace [backslash, CHR ''?''] '':'' text
                   else text)
      in str_replace [backslash, backslash] [backslash] text1)"

section \<open>The schedule object\<close>

text \<open>
  Exceptions are values. \<open>ValueError\<close> is raised by \<open>add\<close> on a mode that is not allowed
  and by \<open>list.index\<close> on a missing element, \<open>IndexError\<close> by a list read or
  \<open>pop\<close> out of range, \<open>KeyError\<close> and \<open>TypeError\<close> by subscripting a parsed JSON value
  that is a dict or a scalar, \<open>JSONDecodeError\<close> by \<open>json.loads\<close>, \<open>RegexError\<close> by
  \<open>re.search\<close> on a pattern that does not compile.
\<close>

datatype error = ValueError | IndexError | KeyError | TypeError | JSONDecodeError | RegexError

text \<open>
  The fields of \<open>datetime.now(timezone.utc)\<close> that the code reads, and the weekly
  timestamp it computes from them in \<open>__init__\<close> and in \<open>tick\<close>:
  \<^verbatim>\<open>crrntTime.weekday()*100000 + crrntTime.hour*3600 + crrntTime.minute*60 + crrntTime.second\<close>
\<close>

record datetime =
  weekday :: int
  hour :: int
  minute :: int
  second :: int

definition crrntTimestamp :: "datetime \<Rightarrow> int" where
  "crrntTimestamp crrntTime =
     weekday crrntTime * 100000 + hour crrntTime * 3600 + minute crrntTime * 60 + second crrntTime"

text \<open>
  The object's attributes. \<open>self.eventSchedule\<close> is a list of three lists; its slots
  \<open>[0]\<close> (timestamps), \<open>[1]\<close> (descriptors) and \<open>[2]\<close> (event ids) are three fields, typed
  as \<open>add\<close>'s annotations type their elements. Nothing in the type makes the three lists
  equally long.
\<close>

record schedule =
  eventSchedule0 :: "int list"
  eventSchedule1 :: "string list"
  eventSchedule2 :: "int list"
  jsonTimings :: string
  allowedEventModes :: "string list"
  prevTimestamp :: int

definition aligned :: "schedule \<Rightarrow> bool" where
  "aligned s \<longleftrightarrow>
     length (eventSchedule1 s) = length (eventSchedule0 s) \<and>
     length (eventSchedule2 s) = length (eventSchedule0 s)"

text \<open>\<open>__init__\<close>: an empty table, the cursor at the time of creation.\<close>

definition init :: "string list \<Rightarrow> datetime \<Rightarrow> schedule" where
  "init modes crrntTime =
     \<lparr> eventSchedule0 = [], eventSchedule1 = [], eventSchedule2 = [],
       jsonTimings = [], allowedEventModes = modes,
       prevTimestamp = crrntTimestamp crrntTime \<rparr>"

definition defaultEventModes :: "string list" where
  "defaultEventModes = [''b'', ''l'', ''s'', ''r'', ''y'', ''m'']"

subsection \<open>List operations that can raise\<close>

text \<open>\<open>xs[i]\<close> for an index that is not negative.\<close>

definition getitem :: "'a list \<Rightarrow> nat \<Rightarrow> error + 'a" where
  "getitem xs i = (if i < length xs then Inr (xs ! i) else Inl IndexError)"

text \<open>\<open>xs.index(x)\<close>: the position of the first occurrence, \<open>None\<close> where Python raises.\<close>

fun index_of :: "'a \<Rightarrow> 'a list \<Rightarrow> nat option" where
  "index_of x [] = None"
| "index_of x (y # ys) =
     (if y = x then Some 0 else (case index_of x ys of None \<Rightarrow> None | Some i \<Rightarrow> Some (Suc i)))"

text \<open>
  \<open>xs.pop(i)\<close> for an index that is not negative; the result is the list that is left
  (the code drops the popped element).
\<close>

definition pop :: "nat \<Rightarrow> 'a list \<Rightarrow> error + 'a list" where
  "pop i xs = (if i < length xs then Inr (take i xs @ drop (Suc i) xs) else Inl IndexError)"

subsection \<open>tick\<close>

text \<open>
  An element of the lists that \<open>tick\<close> and \<open>getEvent\<close> return:
  \<open>(timestamp, [decoded pieces of the descriptor], eventID)\<close>. The expression
  \<^verbatim>\<open>(t, [self.decodeSafeEventDSC(t) for t in self.eventSchedule[1][n].split(":")], self.eventSchedule[2][n])\<close>
  reads slot 1 and then slot 2 at position \<open>n\<close>.
\<close>

type_synonym event = "int \<times> string list \<times> int"

definition event_tuple :: "schedule \<Rightarrow> int \<Rightarrow> nat \<Rightarrow> error + event" where
  "event_tuple s t n =
     (case getitem (eventSchedule1 s) n of
        Inl e \<Rightarrow> Inl e
      | Inr dsc \<Rightarrow>
          (case getitem (eventSchedule2 s) n of
             Inl e \<Rightarrow> Inl e
           | Inr eid \<Rightarrow> Inr (t, map decodeSafeEventDSC (str_split CHR '':'' dsc), eid)))"

text \<open>
  \<^verbatim>\<open>
  toExecute = []
  for ev in enumerate(self.eventSchedule[0]):
      if(ev[1]>self.prevTimestamp and ev[1]<=crrntTimestamp):
          toExecute.append((ev[1], [...], self.eventSchedule[2][ev[0]]))
  self.prevTimestamp = crrntTimestamp
  return toExecute
  \<close>
  The loop, over the timestamps still to visit, with the position \<open>n\<close> of the first of
  them and the list built so far. An exception leaves the loop at once.
\<close>

fun tick_loop :: "schedule \<Rightarrow> int \<Rightarrow> nat \<Rightarrow> int list \<Rightarrow> event list \<Rightarrow> error + event list" where
  "tick_loop s now n [] toExecute = Inr toExecute"
| "tick_loop s now n (t # ts) toExecute =
     (if t > prevTimestamp s \<and> t \<le> now
      then (case event_tuple s t n of
              Inl e \<Rightarrow> Inl e
            | Inr ev \<Rightarrow> tick_loop s now (Suc n) ts (toExecute @ [ev]))
      else tick_loop s now (Suc n) ts toExecute)"

definition tick :: "datetime \<Rightarrow> schedule \<Rightarrow> (error + event list) \<times> schedule" where
  "tick crrntTime s =
     (let now = crrntTimestamp crrntTime
      in case tick_loop s now 0 (eventSchedule0 s) [] of
           Inl e \<Rightarrow> (Inl e, s)
         | Inr toExecute \<Rightarrow> (Inr toExecute, s\<lparr>prevTimestamp := now\<rparr>))"

text \<open>
  The due events in the spec's words, to compare \<open>tick\<close> with: the table read as rows
  \<open>(timestamp, descriptor, eventID)\<close> in table order; a row is due iff
  \<open>prevTimestamp < timestamp \<le> now\<close>; a due row is returned as
  \<open>(timestamp, [decoded pieces of the descriptor], eventID)\<close>.
\<close>

definition due_row :: "int \<Rightarrow> int \<Rightarrow> int \<times> string \<times> int \<Rightarrow> bool" where
  "due_row prev now row = (case row of (t, dsc, eid) \<Rightarrow> prev < t \<and> t \<le> now)"

definition row_event :: "int \<times> string \<times> int \<Rightarrow> event" where
  "row_event row =
     (case row of (t, dsc, eid) \<Rightarrow> (t, map decodeSafeEventDSC (str_split CHR '':'' dsc), eid))"

definition due_events :: "schedule \<Rightarrow> int \<Rightarrow> event list" where
  "due_events s now =
     map row_event
       (filter (due_row (prevTimestamp s) now)
          (zip (eventSchedule0 s) (zip (eventSchedule1 s) (eventSchedule2 s))))"

subsection \<open>add\<close>

text \<open>
  The fallback of the id allocation:
  \<^verbatim>\<open>
  i = 0
  while(i in self.eventSchedule[2]):
      i += 1
  \<close>
  started at any \<open>i\<close>. It ends because the list holds finitely many ids at or above \<open>i\<close>.
\<close>

function scan_from :: "int list \<Rightarrow> int \<Rightarrow> int" where
  "scan_from ids i = (if i \<in> set ids then scan_from ids (i + 1) else i)"
  by pat_completeness auto
termination
proof (relation "measure (\<lambda>(ids, i). card {j \<in> set ids. i \<le> j})")
  show "wf (measure (\<lambda>(ids, i). card {j \<in> set ids. i \<le> j}))"
    by simp
next
  fix ids :: "int list" and i :: int
  assume mem: "i \<in> set ids"
  have sub: "{j \<in> set ids. i + 1 \<le> j} \<subseteq> {j \<in> set ids. i \<le> j}"
    by auto
  have "i \<in> {j \<in> set ids. i \<le> j}" and "i \<notin> {j \<in> set ids. i + 1 \<le> j}"
    using mem by simp_all
  with sub have "{j \<in> set ids. i + 1 \<le> j} \<subset> {j \<in> set ids. i \<le> j}"
    by blast
  then have "card {j \<in> set ids. i + 1 \<le> j} < card {j \<in> set ids. i \<le> j}"
    by (intro psubset_card_mono) simp_all
  then show "((ids, i + 1), (ids, i)) \<in> measure (\<lambda>(ids, i). card {j \<in> set ids. i \<le> j})"
    by simp
qed

text \<open>
  \<^verbatim>\<open>
  n = 1
  newEventID = randint(10000, 99999)
  while(newEventID in self.eventSchedule[2]):
      newEventID = randint(10000, 99999)
      n += 1
      if(n > 100):
          i = 0
          while(i in self.eventSchedule[2]): i += 1
          newEventID = i
          break
  \<close>
  The random source is a parameter: \<open>randint k\<close> is the outcome of the \<open>k\<close>-th call of
  \<open>randint(10000, 99999)\<close> made by this \<open>add\<close>, counted from 0. When the loop test is
  reached with counter \<open>n\<close>, exactly \<open>n\<close> draws have been made, so the next is \<open>randint n\<close>.
\<close>

function id_loop :: "(nat \<Rightarrow> int) \<Rightarrow> int list \<Rightarrow> nat \<Rightarrow> int \<Rightarrow> int" where
  "id_loop randint ids n newEventID =
     (if newEventID \<in> set ids
      then (let newEventID' = randint n; n' = n + 1
            in if n' > 100 then scan_from ids 0
               else id_loop randint ids n' newEventID')
      else newEventID)"
  by pat_completeness auto
termination
  by (relation "measure (\<lambda>(randint, ids, n, newEventID). 101 - n)") auto

definition new_event_id :: "(nat \<Rightarrow> int) \<Rightarrow> int list \<Rightarrow> int" where
  "new_event_id randint ids = id_loop randint ids 1 (randint 0)"

text \<open>
  \<^verbatim>\<open>
  if(not (mode in self.allowedEventModes)):
      raise ValueError(...)
  params = self.encodeSafeEventDSC(params)
  sampleName = self.encodeSafeEventDSC(sampleName)
  self.eventSchedule[0].append(timestamp)
  self.eventSchedule[1].append(f"{mode}:{params}:{sampleName}")
  ... (the id allocation above)
  self.eventSchedule[2].append(newEventID)
  return newEventID
  \<close>
\<close>

definition add ::
  "(nat \<Rightarrow> int) \<Rightarrow> int \<Rightarrow> string \<Rightarrow> string \<Rightarrow> string \<Rightarrow> schedule \<Rightarrow> (error + int) \<times> schedule" where
  "add randint timestamp mode params sampleName s =
     (if mode \<notin> set (allowedEventModes s) then (Inl ValueError, s)
      else
        let params' = encodeSafeEventDSC params;
            sampleName' = encodeSafeEventDSC sampleName;
            s1 = s\<lparr>eventSchedule0 := eventSchedule0 s @ [timestamp]\<rparr>;
            s2 = s1\<lparr>eventSchedule1 :=
                      eventSchedule1 s1 @ [mode @ '':'' @ params' @ '':'' @ sampleName']\<rparr>;
            newEventID = new_event_id randint (eventSchedule2 s2)
        in (Inr newEventID, s2\<lparr>eventSchedule2 := eventSchedule2 s2 @ [newEventID]\<rparr>))"

subsection \<open>remove\<close>

text \<open>
  \<^verbatim>\<open>
  rmID = self.eventSchedule[2].index(eventID)
  self.eventSchedule[0].pop(rmID)
  self.eventSchedule[1].pop(rmID)
  self.eventSchedule[2].pop(rmID)
  \<close>
  Each of the four calls can raise; what was popped before stays popped.
\<close>

definition remove :: "int \<Rightarrow> schedule \<Rightarrow> (error + unit) \<times> schedule" where
  "remove eventID s =
     (case index_of eventID (eventSchedule2 s) of
        None \<Rightarrow> (Inl ValueError, s)
      | Some rmID \<Rightarrow>
          (case pop rmID (eventSchedule0 s) of
             Inl e \<Rightarrow> (Inl e, s)
           | Inr l0 \<Rightarrow>
               let s1 = s\<lparr>eventSchedule0 := l0\<rparr>
               in (case pop rmID (eventSchedule1 s1) of
                     Inl e \<Rightarrow> (Inl e, s1)
                   | Inr l1 \<Rightarrow>
                       let s2 = s1\<lparr>eventSchedule1 := l1\<rparr>
                       in (case pop rmID (eventSchedule2 s2) of
                             Inl e \<Rightarrow> (Inl e, s2)
                           | Inr l2 \<Rightarrow> (Inr (), s2\<lparr>eventSchedule2 := l2\<rparr>)))))"

subsection \<open>getEvent\<close>

text \<open>
  The selectors default to \<open>None\<close>, so they are options. A test \<open>x and (x in xs)\<close> passes
  when \<open>x\<close> is given, is truthy (an \<open>int\<close> other than 0) and occurs in \<open>xs\<close>;
  \<open>selected\<close> returns the selector's value when the test passes.
\<close>

definition selected :: "int option \<Rightarrow> int list \<Rightarrow> int option" where
  "selected x xs =
     (case x of
        None \<Rightarrow> None
      | Some v \<Rightarrow> if v \<noteq> 0 \<and> v \<in> set xs then Some v else None)"

text \<open>The test \<open>elif(eventDscRegex)\<close>: a pattern that is given and not the empty string.\<close>

definition given_regex :: "string option \<Rightarrow> string option" where
  "given_regex x = (case x of None \<Rightarrow> None | Some rx \<Rightarrow> if rx \<noteq> [] then Some rx else None)"

text \<open>
  The one-element answer of the first two branches, from the outcome of
  \<open>xs.index(x)\<close>: \<^verbatim>\<open>[(self.eventSchedule[0][evN], [...], self.eventSchedule[2][evN])]\<close>.
\<close>

definition one_event :: "schedule \<Rightarrow> nat option \<Rightarrow> error + event list option" where
  "one_event s idx =
     (case idx of
        None \<Rightarrow> Inl ValueError
      | Some evN \<Rightarrow>
          (case getitem (eventSchedule0 s) evN of
             Inl e \<Rightarrow> Inl e
           | Inr t \<Rightarrow>
               (case event_tuple s t evN of
                  Inl e \<Rightarrow> Inl e
                | Inr ev \<Rightarrow> Inr (Some [ev]))))"

text \<open>
  \<^verbatim>\<open>
  r = []
  for eN in range(len(self.eventSchedule[0])):
      if(re.search(eventDscRegex, self.eventSchedule[1][eN])):
          r.append((self.eventSchedule[0][eN], [...], self.eventSchedule[2][eN]))
  return r
  \<close>
  \<open>re.search\<close> is a parameter: \<open>re_search pattern text\<close> is \<open>Some True\<close> for a match,
  \<open>Some False\<close> for none, and \<open>None\<close> where \<open>re.search\<close> raises.
\<close>

fun regex_loop ::
  "(string \<Rightarrow> string \<Rightarrow> bool option) \<Rightarrow> string \<Rightarrow> schedule \<Rightarrow> nat list \<Rightarrow> event list
     \<Rightarrow> error + event list" where
  "regex_loop re_search rx s [] r = Inr r"
| "regex_loop re_search rx s (eN # rest) r =
     (case getitem (eventSchedule1 s) eN of
        Inl e \<Rightarrow> Inl e
      | Inr dsc \<Rightarrow>
          (case re_search rx dsc of
             None \<Rightarrow> Inl RegexError
           | Some False \<Rightarrow> regex_loop re_search rx s rest r
           | Some True \<Rightarrow>
               (case getitem (eventSchedule0 s) eN of
                  Inl e \<Rightarrow> Inl e
                | Inr t \<Rightarrow>
                    (case event_tuple s t eN of
                       Inl e \<Rightarrow> Inl e
                     | Inr ev \<Rightarrow> regex_loop re_search rx s rest (r @ [ev])))))"

text \<open>
  The \<open>if\<close>/\<open>elif\<close>/\<open>else\<close> chain. The result is \<open>Inr None\<close> for Python's \<open>None\<close> and
  \<open>Inr (Some r)\<close> for a list. \<open>getEvent\<close> does not change the object.
\<close>

definition getEvent ::
  "(string \<Rightarrow> string \<Rightarrow> bool option) \<Rightarrow> int option \<Rightarrow> int option \<Rightarrow> string option \<Rightarrow> schedule
     \<Rightarrow> error + event list option" where
  "getEvent re_search eventID eventTimestamp eventDscRegex s =
     (case selected eventID (eventSchedule2 s) of
        Some eid \<Rightarrow> one_event s (index_of eid (eventSchedule2 s))
      | None \<Rightarrow>
          (case selected eventTimestamp (eventSchedule0 s) of
             Some ts \<Rightarrow> one_event s (index_of ts (eventSchedule0 s))
           | None \<Rightarrow>
               (case given_regex eventDscRegex of
                  Some rx \<Rightarrow>
                    (case regex_loop re_search rx s [0 ..< length (eventSchedule0 s)] [] of
                       Inl e \<Rightarrow> Inl e
                     | Inr r \<Rightarrow> Inr (Some r))
                | None \<Rightarrow> Inr None)))"

text \<open>
  The regex branch in the spec's words, to compare \<open>getEvent\<close> with: all events whose
  raw encoded descriptor matches the pattern, in table order, each returned as
  \<open>(timestamp, [decoded pieces of the descriptor], eventID)\<close>.
\<close>

definition match_row :: "(string \<Rightarrow> string \<Rightarrow> bool option) \<Rightarrow> string \<Rightarrow> int \<times> string \<times> int \<Rightarrow> bool" where
  "match_row re_search rx row = (case row of (t, dsc, eid) \<Rightarrow> re_search rx dsc = Some True)"

definition matching_events :: "(string \<Rightarrow> string \<Rightarrow> bool option) \<Rightarrow> string \<Rightarrow> schedule \<Rightarrow> event list" where
  "matching_events re_search rx s =
     map row_event
       (filter (match_row re_search rx)
          (zip (eventSchedule0 s) (zip (eventSchedule1 s) (eventSchedule2 s))))"

subsection \<open>exportTimings and importTimings\<close>

text \<open>
  What \<open>json.loads\<close> can return: \<open>None\<close>, a \<open>bool\<close>, an \<open>int\<close>, a \<open>float\<close> (kept as the text
  of its literal; nothing here computes with it), a \<open>str\<close>, a \<open>list\<close>, or a \<open>dict\<close> whose
  keys are strings.
\<close>

datatype pyval =
    PNone
  | PBool bool
  | PInt int
  | PFloat string
  | PStr string
  | PList "pyval list"
  | PDict "(string \<times> pyval) list"

text \<open>
  \<open>tData[i]\<close> for \<open>i\<close> one of 0, 1, 2: an element of a list, a one-character string of
  a string, \<open>KeyError\<close> on a dict (its keys are strings, never the integer \<open>i\<close>),
  \<open>TypeError\<close> on anything else.
\<close>

fun subscript :: "pyval \<Rightarrow> nat \<Rightarrow> error + pyval" where
  "subscript (PList xs) i = (if i < length xs then Inr (xs ! i) else Inl IndexError)"
| "subscript (PStr cs) i = (if i < length cs then Inr (PStr [cs ! i]) else Inl IndexError)"
| "subscript (PDict kvs) i = Inl KeyError"
| "subscript PNone i = Inl TypeError"
| "subscript (PBool b) i = Inl TypeError"
| "subscript (PInt n) i = Inl TypeError"
| "subscript (PFloat f) i = Inl TypeError"

text \<open>
  The three slots of \<open>self.eventSchedule\<close> as Python values, and the whole attribute as
  \<open>json.dumps\<close> receives it.
\<close>

type_synonym slots = "pyval \<times> pyval \<times> pyval"

definition slots_of :: "schedule \<Rightarrow> slots" where
  "slots_of s =
     (PList (map PInt (eventSchedule0 s)),
      PList (map PStr (eventSchedule1 s)),
      PList (map PInt (eventSchedule2 s)))"



text \<open>
  \<^verbatim>\<open>
  tData = json.loads(self.jsonTimings)
  self.eventSchedule[0] = tData[0]
  self.eventSchedule[1] = tData[1]
  self.eventSchedule[2] = tData[2]
  \<close>
  \<open>json.loads\<close> is a parameter, \<open>None\<close> where it raises. The code stores whatever
  \<open>tData[i]\<close> is, a list or not, so the outcome is given as the three slots after the
  call, as Python values, next to the exception if one was raised.
\<close>

definition importTimings ::
  "(string \<Rightarrow> pyval option) \<Rightarrow> schedule \<Rightarrow> (error + unit) \<times> slots" where
  "importTimings loads s =
     (case slots_of s of
        (e0, e1, e2) \<Rightarrow>
          (case loads (jsonTimings s) of
             None \<Rightarrow> (Inl JSONDecodeError, (e0, e1, e2))
           | Some tData \<Rightarrow>
               (case subscript tData 0 of
                  Inl e \<Rightarrow> (Inl e, (e0, e1, e2))
                | Inr v0 \<Rightarrow>
                    (case subscript tData 1 of
                       Inl e \<Rightarrow> (Inl e, (v0, e1, e2))
                     | Inr v1 \<Rightarrow>
                         (case subscript tData 2 of
                            Inl e \<Rightarrow> (Inl e, (v0, v1, e2))
                          | Inr v2 \<Rightarrow> (Inr (), (v0, v1, v2)))))))"

section \<open>Sequences of calls, and concrete inputs\<close>

text \<open>
  A caller's calls of \<open>add\<close> and \<open>remove\<close>, each \<open>Add\<close> with the outcomes of its own
  random draws. \<open>run\<close> makes the calls one after the other on the same object; a call
  that raises leaves the object as it was at the raise, and the next call goes on from
  there.
\<close>

datatype operation =
    Add "nat \<Rightarrow> int" int string string string
  | Remove int

fun apply_operation :: "operation \<Rightarrow> schedule \<Rightarrow> schedule" where
  "apply_operation (Add randint timestamp mode params sampleName) s =
     snd (add randint timestamp mode params sampleName s)"
| "apply_operation (Remove eventID) s = snd (remove eventID s)"

fun run :: "operation list \<Rightarrow> schedule \<Rightarrow> schedule" where
  "run [] s = s"
| "run (operation # rest) s = run rest (apply_operation operation s)"

text \<open>A random source whose every draw is \<open>v\<close>.\<close>

definition always :: "int \<Rightarrow> nat \<Rightarrow> int" where
  "always v k = v"

text \<open>Monday 00:00:00 and Monday 02:00:00.\<close>

definition monday_midnight :: datetime where
  "monday_midnight = \<lparr> weekday = 0, hour = 0, minute = 0, second = 0 \<rparr>"

definition monday_0200 :: datetime where
  "monday_0200 = \<lparr> weekday = 0, hour = 2, minute = 0, second = 0 \<rparr>"

text \<open>
  A table with the one event of the spec's scenario,
  \<open>add(timestamp=3600, mode="b", params="l3", sampleName="bell1")\<close> with id 12345,
  built directly and holding a given pending serialized form.
\<close>

definition one_bell :: "string \<Rightarrow> schedule" where
  "one_bell pending =
     \<lparr> eventSchedule0 = [3600], eventSchedule1 = [''b:l3:bell1''], eventSchedule2 = [12345],
       jsonTimings = pending, allowedEventModes = defaultEventModes, prevTimestamp = 0 \<rparr>"

text \<open>A table of three events.\<close>

definition three_events :: schedule where
  "three_events =
     \<lparr> eventSchedule0 = [3600, 7200, 10800],
       eventSchedule1 = [''b:l3:bell1'', ''r::jazz'', ''l::song''],
       eventSchedule2 = [12345, 20002, 30003],
       jsonTimings = [], allowedEventModes = defaultEventModes, prevTimestamp = 3600 \<rparr>"

text \<open>
  A table of two events, the first with timestamp 0 and id 0.
\<close>

definition zero_and_jazz :: schedule where
  "zero_and_jazz =
     \<lparr> eventSchedule0 = [0, 3600], eventSchedule1 = [''b:l3:bell1'', ''r::jazz''],
       eventSchedule2 = [0, 12345],
       jsonTimings = [], allowedEventModes = defaultEventModes, prevTimestamp = 0 \<rparr>"

text \<open>
  \<open>re.search\<close> for a pattern made of letters only: such a pattern matches exactly where
  it occurs in the text. For patterns with regex metacharacters this is not \<open>re.search\<close>.
\<close>

definition literal_search :: "string \<Rightarrow> string \<Rightarrow> bool option" where
  "literal_search pattern str = Some (str_contains pattern str)"

text \<open>
  \<open>json.loads\<close> on the texts used below. \<open>json.loads("[[1], [2]]")\<close> is the list
  \<open>[[1], [2]]\<close>; the text \<open>[[3600], ["b:l3:bell1"], [12345]]\<close> is read as the list it
  shows; texts that are not JSON, such as \<open>oops\<close>, make \<open>json.loads\<close> raise. On every
  other text this stand-in raises.
\<close>

abbreviation dquote :: char where
  "dquote \<equiv> CHR 0x22"

definition one_bell_json :: string where
  "one_bell_json = ''[[3600], ['' @ [dquote] @ ''b:l3:bell1'' @ [dquote] @ ''], [12345]]''"

definition one_bell_value :: pyval where
  "one_bell_value = PList [PList [PInt 3600], PList [PStr ''b:l3:bell1''], PList [PInt 12345]]"

definition loads_sample :: "string \<Rightarrow> pyval option" where
  "loads_sample text =
     (if text = ''[[1], [2]]'' then Some (PList [PList [PInt 1], PList [PInt 2]])
      else if text = ''[[1]]'' then Some (PList [PList [PInt 1]])
      else if text = ''[]'' then Some (PList [])
      else if text = one_bell_json then Some one_bell_value
      else None)"

section \<open>A writer and a reader for JSON\<close>

text \<open>
  \<open>json.dumps\<close> and \<open>json.loads\<close> are parameters of \<open>exportTimings\<close> and \<open>importTimings\<close>.
  To run the two on a concrete table, \<open>dumps_model\<close> is what \<open>json.dumps\<close> writes with its
  defaults (\<open>ensure_ascii\<close>, the separators \<open>", "\<close> and \<open>": "\<close>): a string in double
  quotes with \<open>"\<close> and the backslash escaped by a backslash, the control characters as
  \<open>\n \r \t \b \f\<close> or \<open>\u00xx\<close>, and every character above \<open>~\<close> as \<open>\u00xx\<close>; an integer
  in decimal; a float as its text; a list in brackets; a dict in braces.

  \<open>loads_model\<close> is a reader for the texts that \<open>json.dumps\<close> writes for values built from
  lists, integers, strings, \<open>None\<close> and booleans, with JSON's white space allowed
  between the tokens. It answers \<open>None\<close> where such a text is malformed. Objects,
  floating-point literals and \<open>\u\<close> escapes above \<open>00ff\<close> (which a one-byte character
  cannot hold) are outside it: there its \<open>None\<close> is not what \<open>json.loads\<close> does.
  \<open>parse_value\<close> and \<open>parse_items\<close> take a bound on the nesting and the number of items,
  which \<open>loads_model\<close> sets to one more than the length of the text.
\<close>

definition digit_chars :: string where
  "digit_chars = ''0123456789''"

definition hex_chars :: string where
  "hex_chars = ''0123456789abcdef''"







definition is_ws :: "char \<Rightarrow> bool" where
  "is_ws c \<longleftrightarrow> c = CHR '' '' \<or> c = CHR 0x09 \<or> c = CHR 0x0A \<or> c = CHR 0x0D"

definition skip_ws :: "string \<Rightarrow> string" where
  "skip_ws s = dropWhile is_ws s"

definition hex_value :: "char \<Rightarrow> nat option" where
  "hex_value c =
     (case index_of c hex_chars of
        Some v \<Rightarrow> Some v
      | None \<Rightarrow> (case index_of c ''0123456789ABCDEF'' of Some v \<Rightarrow> Some v | None \<Rightarrow> None))"

definition unicode_escape :: "string \<Rightarrow> char option" where
  "unicode_escape hs =
     (case map hex_value hs of
        [Some a, Some b, Some c, Some d] \<Rightarrow>
          if a = 0 \<and> b = 0 then Some (char_of (16 * c + d)) else None
      | _ \<Rightarrow> None)"

definition simple_escape :: "char \<Rightarrow> char option" where
  "simple_escape e =
     (if e = dquote then Some dquote
      else if e = backslash then Some backslash
      else if e = CHR ''/'' then Some CHR ''/''
      else if e = CHR ''b'' then Some (CHR 0x08)
      else if e = CHR ''f'' then Some (CHR 0x0C)
      else if e = CHR ''n'' then Some (CHR 0x0A)
      else if e = CHR ''r'' then Some (CHR 0x0D)
      else if e = CHR ''t'' then Some (CHR 0x09)
      else None)"

fun scan_string :: "string \<Rightarrow> string \<Rightarrow> (string \<times> string) option" where
  "scan_string acc [] = None"
| "scan_string acc [c] = (if c = dquote then Some (acc, []) else None)"
| "scan_string acc (c # e # cs) =
     (if c = dquote then Some (acc, e # cs)
      else if c = backslash
      then (if e = CHR ''u''
            then (case unicode_escape (take 4 cs) of
                    None \<Rightarrow> None
                  | Some ch \<Rightarrow> scan_string (acc @ [ch]) (drop 4 cs))
            else (case simple_escape e of
                    None \<Rightarrow> None
                  | Some ch \<Rightarrow> scan_string (acc @ [ch]) cs))
      else if of_char c < (32 :: nat) then None
      else scan_string (acc @ [c]) (e # cs))"

definition is_digit :: "char \<Rightarrow> bool" where
  "is_digit c \<longleftrightarrow> c \<in> set digit_chars"

definition digits_value :: "string \<Rightarrow> int" where
  "digits_value ds = foldl (\<lambda>a d. 10 * a + (case index_of d digit_chars of Some v \<Rightarrow> int v | None \<Rightarrow> 0)) 0 ds"

definition scan_unsigned :: "string \<Rightarrow> (int \<times> string) option" where
  "scan_unsigned s =
     (let ds = (case s of [] \<Rightarrow> [] | c # cs \<Rightarrow> if c = CHR ''0'' then [c] else takeWhile is_digit s);
          rest = drop (length ds) s
      in if ds = [] then None
         else (case rest of
                 [] \<Rightarrow> Some (digits_value ds, rest)
               | c # cs \<Rightarrow>
                   if c = CHR ''.'' \<or> c = CHR ''e'' \<or> c = CHR ''E'' then None
                   else Some (digits_value ds, rest)))"

definition scan_int :: "string \<Rightarrow> (int \<times> string) option" where
  "scan_int s =
     (case s of
        [] \<Rightarrow> None
      | c # cs \<Rightarrow>
          if c = CHR ''-''
          then (case scan_unsigned cs of None \<Rightarrow> None | Some (v, rest) \<Rightarrow> Some (- v, rest))
          else scan_unsigned s)"

fun parse_value :: "nat \<Rightarrow> string \<Rightarrow> (pyval \<times> string) option"
  and parse_items :: "nat \<Rightarrow> pyval list \<Rightarrow> string \<Rightarrow> (pyval list \<times> string) option" where
  "parse_value 0 s = None"
| "parse_value (Suc fuel) s =
     (case s of
        [] \<Rightarrow> None
      | c # cs \<Rightarrow>
          if c = dquote
          then (case scan_string [] cs of
                  None \<Rightarrow> None
                | Some (str, rest) \<Rightarrow> Some (PStr str, rest))
          else if c = CHR ''[''
          then (case skip_ws cs of
                  [] \<Rightarrow> None
                | d # rest \<Rightarrow>
                    if d = CHR '']'' then Some (PList [], rest)
                    else (case parse_items fuel [] (d # rest) of
                            None \<Rightarrow> None
                          | Some (xs, rest') \<Rightarrow> Some (PList xs, rest')))
          else if prefix ''null'' s then Some (PNone, drop 4 s)
          else if prefix ''true'' s then Some (PBool True, drop 4 s)
          else if prefix ''false'' s then Some (PBool False, drop 5 s)
          else (case scan_int s of
                  None \<Rightarrow> None
                | Some (i, rest) \<Rightarrow> Some (PInt i, rest)))"
| "parse_items 0 acc s = None"
| "parse_items (Suc fuel) acc s =
     (case parse_value fuel s of
        None \<Rightarrow> None
      | Some (v, rest) \<Rightarrow>
          (case skip_ws rest of
             [] \<Rightarrow> None
           | d # rest' \<Rightarrow>
               if d = CHR '','' then parse_items fuel (acc @ [v]) (skip_ws rest')
               else if d = CHR '']'' then Some (acc @ [v], rest')
               else None))"




section \<open>Descriptor escaping: what round-trips and what does not\<close>

text \<open>A replacement of something that does not occur changes nothing, so the two
  \<open>in\<close> tests of the code do not matter.\<close>

lemma str_replace_absent:
  "old \<noteq> [] \<Longrightarrow> \<not> str_contains old str \<Longrightarrow> str_replace old new str = str"
  by (induction str) simp_all

lemma replace_backslash:
  "str_replace [backslash] [backslash, backslash] str
     = concat (map (\<lambda>c. if c = backslash then [backslash, backslash] else [c]) str)"
  by (induction str) auto

lemma replace_colon:
  "str_replace '':'' [backslash, CHR ''?''] str
     = concat (map (\<lambda>c. if c = CHR '':'' then [backslash, CHR ''?''] else [c]) str)"
  by (induction str) auto

lemma encode_no_guard:
  "encodeSafeEventDSC str
     = str_replace '':'' [backslash, CHR ''?''] (str_replace [backslash] [backslash, backslash] str)"
  by (simp add: encodeSafeEventDSC_def Let_def str_replace_absent)

lemma decode_no_guard:
  "decodeSafeEventDSC str
     = str_replace [backslash, backslash] [backslash] (str_replace [backslash, CHR ''?''] '':'' str)"
  by (simp add: decodeSafeEventDSC_def Let_def str_replace_absent)

text \<open>
  Encoding works character by character: a backslash becomes two, a colon becomes
  backslash + question mark, every other character stays.
\<close>

lemma encode_chars:
  "encodeSafeEventDSC str
     = concat (map (\<lambda>c. if c = backslash then [backslash, backslash]
                          else if c = CHR '':'' then [backslash, CHR ''?''] else [c]) str)"
  unfolding encode_no_guard replace_backslash replace_colon
  by (induction str) simp_all

text \<open>An encoded text holds no colon at all, escaped or not.\<close>

lemma encode_no_colon: "CHR '':'' \<notin> set (encodeSafeEventDSC str)"
  by (auto simp add: encode_chars)

lemma encode_Nil: "encodeSafeEventDSC [] = []"
  by (simp add: encode_chars)

lemma encode_Cons:
  "encodeSafeEventDSC (c # cs)
     = (if c = backslash then [backslash, backslash]
        else if c = CHR '':'' then [backslash, CHR ''?''] else [c]) @ encodeSafeEventDSC cs"
  by (simp add: encode_chars)

text \<open>
  Decoding first turns every backslash + question mark into a colon. On an encoded text
  that undoes the colon escapes only if no doubled backslash is followed by a question
  mark, that is, if the original text has no backslash directly before a question mark.
\<close>

lemma unescape_colons:
  "\<not> str_contains [backslash, CHR ''?''] str \<Longrightarrow>
   str_replace [backslash, CHR ''?''] '':'' (encodeSafeEventDSC str)
     = str_replace [backslash] [backslash, backslash] str"
proof (induction str)
  case Nil
  then show ?case by (simp add: encode_Nil)
next
  case (Cons c cs)
  from Cons.prems have rest: "\<not> str_contains [backslash, CHR ''?''] cs"
    and here: "\<not> prefix [backslash, CHR ''?''] (c # cs)"
    by simp_all
  note IH = Cons.IH [OF rest]
  show ?case
  proof (cases "c = backslash")
    case True
    with here have "\<not> prefix [CHR ''?''] cs" by simp
    then have "\<not> prefix [CHR ''?''] (encodeSafeEventDSC cs)"
      by (cases cs) (simp_all add: encode_Nil encode_Cons)
    with True IH show ?thesis
      by (cases "encodeSafeEventDSC cs") (simp_all add: encode_Cons)
  next
    case False
    with IH show ?thesis
      by (simp add: encode_Cons)
  qed
qed

lemma unescape_backslashes:
  "str_replace [backslash, backslash] [backslash]
     (str_replace [backslash] [backslash, backslash] str) = str"
  by (induction str) auto

text \<open>The round trip holds for every text without backslash + question mark.\<close>

lemma decode_encode_without_backslash_question:
  "\<not> str_contains [backslash, CHR ''?''] str \<Longrightarrow>
   decodeSafeEventDSC (encodeSafeEventDSC str) = str"
  by (simp add: decode_no_guard unescape_colons unescape_backslashes)

text \<open>
  C1 says that \<open>decodeSafeEventDSC (encodeSafeEventDSC s) = s\<close> for every \<open>s\<close>, in particular
  for a literal backslash + question mark. The code does not do that: that two-character
  text is encoded as backslash, backslash, question mark; decoding replaces backslash +
  question mark first, which matches the second backslash and the question mark, and
  gives backslash + colon, not the text.
\<close>

theorem decode_encode_backslash_question:
  "encodeSafeEventDSC [backslash, CHR ''?''] = [backslash, backslash, CHR ''?''] \<and>
   decodeSafeEventDSC (encodeSafeEventDSC [backslash, CHR ''?'']) = [backslash, CHR '':''] \<and>
   decodeSafeEventDSC (encodeSafeEventDSC [backslash, CHR ''?'']) \<noteq> [backslash, CHR ''?'']"
  by (simp add: encodeSafeEventDSC_def decodeSafeEventDSC_def)

text \<open>
  The same through the object: an event added with \<open>params\<close> backslash + question mark
  comes back from \<open>tick\<close> with backslash + colon.
\<close>

lemma add_then_tick_backslash_question:
  "fst (tick monday_0200
          (snd (add (always 12345) 3600 ''b'' [backslash, CHR ''?''] ''bell1''
                  (init defaultEventModes monday_midnight))))
     = Inr [(3600, [''b'', [backslash, CHR '':''], ''bell1''], 12345)]"
  by (simp add: tick_def add_def init_def defaultEventModes_def monday_midnight_def
        monday_0200_def crrntTimestamp_def new_event_id_def always_def id_loop.simps
        event_tuple_def getitem_def str_split_def encodeSafeEventDSC_def
        decodeSafeEventDSC_def Let_def)

section \<open>Id allocation\<close>

text \<open>
  The recursive equations of the two loops are used one unfolding at a time.
\<close>

declare scan_from.simps [simp del] id_loop.simps [simp del]

lemma scan_from_free: "scan_from ids i \<notin> set ids"
proof (induction ids i rule: scan_from.induct)
  case (1 ids i)
  then show ?case
    by (cases "i \<in> set ids") (simp_all add: scan_from.simps [of ids i])
qed

lemma scan_from_ge: "i \<le> scan_from ids i"
proof (induction ids i rule: scan_from.induct)
  case (1 ids i)
  then show ?case
    by (cases "i \<in> set ids") (simp_all add: scan_from.simps [of ids i])
qed

lemma scan_from_below: "i \<le> j \<Longrightarrow> j < scan_from ids i \<Longrightarrow> j \<in> set ids"
proof (induction ids i rule: scan_from.induct)
  case (1 ids i)
  show ?case
  proof (cases "i \<in> set ids")
    case True
    show ?thesis
    proof (cases "j = i")
      case True
      with \<open>i \<in> set ids\<close> show ?thesis by simp
    next
      case False
      with "1.prems" True have "i + 1 \<le> j" "j < scan_from ids (i + 1)"
        by (simp_all add: scan_from.simps [of ids i])
      with "1.IH" True show ?thesis by blast
    qed
  next
    case False
    with "1.prems" show ?thesis
      by (simp add: scan_from.simps [of ids i])
  qed
qed

lemma id_loop_free: "id_loop randint ids n newEventID \<notin> set ids"
proof (induction randint ids n newEventID rule: id_loop.induct)
  case (1 randint ids n newEventID)
  show ?case
  proof (cases "newEventID \<in> set ids")
    case False
    then show ?thesis by (simp add: id_loop.simps [of randint ids n newEventID])
  next
    case True
    show ?thesis
    proof (cases "n + 1 > 100")
      case big: True
      with True show ?thesis
        by (simp add: id_loop.simps [of randint ids n newEventID] scan_from_free)
    next
      case small: False
      with True "1.IH" [OF True refl refl small] show ?thesis
        by (simp add: id_loop.simps [of randint ids n newEventID])
    qed
  qed
qed

lemma id_loop_range:
  assumes draws: "\<forall>k. 10000 \<le> randint k \<and> randint k \<le> 99999"
    and start: "10000 \<le> newEventID \<and> newEventID \<le> 99999"
  shows "(10000 \<le> id_loop randint ids n newEventID \<and> id_loop randint ids n newEventID \<le> 99999)
         \<or> id_loop randint ids n newEventID = scan_from ids 0"
  using draws start
proof (induction randint ids n newEventID rule: id_loop.induct)
  case (1 randint ids n newEventID)
  show ?case
  proof (cases "newEventID \<in> set ids")
    case False
    with "1.prems" show ?thesis by (simp add: id_loop.simps [of randint ids n newEventID])
  next
    case True
    show ?thesis
    proof (cases "n + 1 > 100")
      case big: True
      with True show ?thesis
        by (simp add: id_loop.simps [of randint ids n newEventID])
    next
      case small: False
      have "10000 \<le> randint n \<and> randint n \<le> 99999" using "1.prems" by blast
      with True "1.IH" [OF True refl refl small] "1.prems" small show ?thesis
        by (simp add: id_loop.simps [of randint ids n newEventID])
    qed
  qed
qed

lemma new_event_id_free: "new_event_id randint ids \<notin> set ids"
  by (simp add: new_event_id_def id_loop_free)

section \<open>add and remove keep the table aligned and its ids distinct\<close>

lemma add_allowed:
  "mode \<in> set (allowedEventModes s) \<Longrightarrow>
   add randint timestamp mode params sampleName s =
     (Inr (new_event_id randint (eventSchedule2 s)),
      s\<lparr>eventSchedule0 := eventSchedule0 s @ [timestamp],
        eventSchedule1 := eventSchedule1 s @
           [mode @ '':'' @ encodeSafeEventDSC params @ '':'' @ encodeSafeEventDSC sampleName],
        eventSchedule2 := eventSchedule2 s @ [new_event_id randint (eventSchedule2 s)]\<rparr>)"
  by (simp add: add_def Let_def)

lemma add_keeps_aligned: "aligned s \<Longrightarrow> aligned (snd (add randint timestamp mode params sampleName s))"
  by (cases "mode \<in> set (allowedEventModes s)") (simp_all add: add_allowed aligned_def, simp add: add_def)

lemma add_keeps_distinct:
  "distinct (eventSchedule2 s) \<Longrightarrow>
   distinct (eventSchedule2 (snd (add randint timestamp mode params sampleName s)))"
  by (cases "mode \<in> set (allowedEventModes s)") (simp_all add: add_allowed new_event_id_free, simp add: add_def)

lemma index_of_None: "index_of x xs = None \<longleftrightarrow> x \<notin> set xs"
  by (induction xs) (auto split: option.splits)

lemma index_of_Some:
  "index_of x xs = Some k \<Longrightarrow> k < length xs \<and> xs ! k = x \<and> (\<forall>j<k. xs ! j \<noteq> x)"
proof (induction xs arbitrary: k)
  case Nil
  then show ?case by simp
next
  case (Cons y ys)
  show ?case
  proof (cases "y = x")
    case True
    with Cons.prems show ?thesis by simp
  next
    case False
    with Cons.prems obtain i where i: "index_of x ys = Some i" "k = Suc i"
      by (auto split: option.splits)
    from Cons.IH [OF i(1)] have ih: "i < length ys" "ys ! i = x" "\<forall>j<i. ys ! j \<noteq> x"
      by simp_all
    have "\<forall>j<Suc i. (y # ys) ! j \<noteq> x"
    proof (intro allI impI)
      fix j assume "j < Suc i"
      then show "(y # ys) ! j \<noteq> x"
        using False ih(3) by (cases j) simp_all
    qed
    with ih i(2) show ?thesis by simp
  qed
qed

lemma remove_present:
  assumes al: "aligned s" and idx: "index_of eventID (eventSchedule2 s) = Some k"
  shows "remove eventID s =
    (Inr (),
     s\<lparr>eventSchedule0 := take k (eventSchedule0 s) @ drop (Suc k) (eventSchedule0 s),
       eventSchedule1 := take k (eventSchedule1 s) @ drop (Suc k) (eventSchedule1 s),
       eventSchedule2 := take k (eventSchedule2 s) @ drop (Suc k) (eventSchedule2 s)\<rparr>)"
proof -
  from index_of_Some [OF idx] have "k < length (eventSchedule2 s)" by simp
  with al have "k < length (eventSchedule0 s)" "k < length (eventSchedule1 s)"
    by (simp_all add: aligned_def)
  with \<open>k < length (eventSchedule2 s)\<close> idx show ?thesis
    by (simp add: remove_def pop_def Let_def)
qed

lemma remove_absent:
  "eventID \<notin> set (eventSchedule2 s) \<Longrightarrow> remove eventID s = (Inl ValueError, s)"
  by (simp add: remove_def index_of_None [THEN iffD2])

lemma distinct_without: "distinct xs \<Longrightarrow> distinct (take k xs @ drop (Suc k) xs)"
proof -
  assume d: "distinct xs"
  have "set (take k xs) \<inter> set (drop (Suc k) xs) \<subseteq> set (take k xs) \<inter> set (drop k xs)"
    using set_drop_subset_set_drop [of k "Suc k" xs] by auto
  moreover have "set (take k xs) \<inter> set (drop k xs) = {}"
    using d by (metis append_take_drop_id distinct_append)
  ultimately show ?thesis
    using d by (simp add: distinct_take distinct_drop)
qed

lemma remove_keeps_invariant:
  assumes "aligned s" and "distinct (eventSchedule2 s)"
  shows "aligned (snd (remove eventID s)) \<and> distinct (eventSchedule2 (snd (remove eventID s)))"
proof (cases "index_of eventID (eventSchedule2 s)")
  case None
  then have "eventID \<notin> set (eventSchedule2 s)" by (simp add: index_of_None)
  with assms show ?thesis by (simp add: remove_absent)
next
  case (Some k)
  from index_of_Some [OF Some] have "k < length (eventSchedule2 s)" by simp
  with assms(1) distinct_without [OF assms(2), of k] show ?thesis
    by (simp add: remove_present [OF assms(1) Some] aligned_def del: distinct_append)
qed

lemma run_invariant:
  "aligned s \<Longrightarrow> distinct (eventSchedule2 s) \<Longrightarrow>
   aligned (run ops s) \<and> distinct (eventSchedule2 (run ops s))"
proof (induction ops arbitrary: s)
  case Nil
  then show ?case by simp
next
  case (Cons operation rest)
  have "aligned (apply_operation operation s)
        \<and> distinct (eventSchedule2 (apply_operation operation s))"
    using Cons.prems
    by (cases operation) (simp_all add: add_keeps_aligned add_keeps_distinct remove_keeps_invariant)
  with Cons.IH show ?case by simp
qed

lemma run_modes: "allowedEventModes (run ops s) = allowedEventModes s"
proof (induction ops arbitrary: s)
  case Nil
  then show ?case by simp
next
  case (Cons operation rest)
  have "allowedEventModes (apply_operation operation s) = allowedEventModes s"
  proof (cases operation)
    case (Add randint timestamp mode params sampleName)
    then show ?thesis
      by (cases "mode \<in> set (allowedEventModes s)") (simp_all add: add_allowed, simp add: add_def)
  next
    case (Remove eventID)
    then show ?thesis
      by (simp add: remove_def pop_def Let_def split: option.splits)
  qed
  with Cons.IH show ?case by simp
qed

lemma init_invariant: "aligned (init modes crrntTime) \<and> distinct (eventSchedule2 (init modes crrntTime))"
  by (simp add: init_def aligned_def)

section \<open>Uniqueness of event ids\<close>

text \<open>
  C4. Starting from the empty table that \<open>__init__\<close> builds, after any finite sequence of
  \<open>add\<close> and \<open>remove\<close> calls (whatever the random draws of each \<open>add\<close>, and whether or not
  a call raised), the ids in slot 2 are pairwise distinct; and a further \<open>add\<close> with an
  allowed mode returns (\<open>add\<close> is a total function: both of its loops were shown to end)
  an id that was not in the table, appended to slot 2, which stays distinct.
\<close>

theorem eventID_uniqueness:
  "distinct (eventSchedule2 (run ops (init modes crrntTime))) \<and>
   (mode \<in> set modes \<longrightarrow>
      (\<exists>newEventID s'.
         add randint timestamp mode params sampleName (run ops (init modes crrntTime))
           = (Inr newEventID, s') \<and>
         newEventID \<notin> set (eventSchedule2 (run ops (init modes crrntTime))) \<and>
         eventSchedule2 s' = eventSchedule2 (run ops (init modes crrntTime)) @ [newEventID] \<and>
         distinct (eventSchedule2 s')))"
proof (intro conjI impI)
  let ?s = "run ops (init modes crrntTime)"
  show d: "distinct (eventSchedule2 ?s)"
    using run_invariant init_invariant by blast
  assume "mode \<in> set modes"
  then have "mode \<in> set (allowedEventModes ?s)"
    by (simp add: run_modes init_def)
  from add_allowed [OF this] d
  show "\<exists>newEventID s'.
         add randint timestamp mode params sampleName ?s = (Inr newEventID, s') \<and>
         newEventID \<notin> set (eventSchedule2 ?s) \<and>
         eventSchedule2 s' = eventSchedule2 ?s @ [newEventID] \<and>
         distinct (eventSchedule2 s')"
    by (simp add: new_event_id_free)
qed

text \<open>
  The theorem at a concrete run: two adds whose draws all come out as 12345 (the second
  falls back to the scan), then the removal of 12345, then one more add.
\<close>

theorem eventID_uniqueness_witness:
  "''b'' \<in> set defaultEventModes \<and>
   distinct (eventSchedule2 (run [Add (always 12345) 3600 ''b'' ''l3'' ''bell1'',
                                  Add (always 12345) 7200 ''r'' [] ''jazz'',
                                  Remove 12345]
                                 (init defaultEventModes monday_midnight))) \<and>
   (\<exists>newEventID s'.
       add (always 0) 60 ''b'' [] [] (run [Add (always 12345) 3600 ''b'' ''l3'' ''bell1'',
                                  Add (always 12345) 7200 ''r'' [] ''jazz'',
                                  Remove 12345]
                                 (init defaultEventModes monday_midnight))
         = (Inr newEventID, s') \<and>
       newEventID \<notin> set (eventSchedule2 (run [Add (always 12345) 3600 ''b'' ''l3'' ''bell1'',
                                  Add (always 12345) 7200 ''r'' [] ''jazz'',
                                  Remove 12345]
                                 (init defaultEventModes monday_midnight))) \<and>
       eventSchedule2 s' = eventSchedule2 (run [Add (always 12345) 3600 ''b'' ''l3'' ''bell1'',
                                  Add (always 12345) 7200 ''r'' [] ''jazz'',
                                  Remove 12345]
                                 (init defaultEventModes monday_midnight)) @ [newEventID] \<and>
       distinct (eventSchedule2 s'))"
proof -
  have h: "''b'' \<in> set defaultEventModes"
    by (simp add: defaultEventModes_def)
  from h eventID_uniqueness [of "[Add (always 12345) 3600 ''b'' ''l3'' ''bell1'',
                                  Add (always 12345) 7200 ''r'' [] ''jazz'',
                                  Remove 12345]" defaultEventModes monday_midnight "''b''"
                                "always 0" 60 "[]" "[]"]
  show ?thesis by blast
qed

section \<open>The range of allocated ids\<close>

text \<open>
  An allocated id need not be positive. On the table reached from the empty one by one
  \<open>add\<close> that drew 12345, a second \<open>add\<close> whose draws all come out as 12345 sees 100
  collisions, scans from 0, and returns 0.
\<close>

theorem add_id_zero:
  "fst (add (always 12345) 7200 ''r'' [] ''jazz''
         (snd (add (always 12345) 3600 ''b'' ''l3'' ''bell1''
                 (init defaultEventModes monday_midnight)))) = Inr 0"
  by (simp add: add_def init_def defaultEventModes_def new_event_id_def always_def Let_def
        id_loop.simps scan_from.simps)

text \<open>
  C5, amended. For every table state and every outcome of the random draws within
  \<open>[10000, 99999]\<close>, an \<open>add\<close> with an allowed mode returns an id that is not negative
  and not in the table: either it lies in \<open>[10000, 99999]\<close>, or every smaller integer from
  0 on is in the table, that is, it is the smallest unused integer from 0 on, which
  is 0 when 0 is unused.
\<close>

theorem add_id_nonnegative:
  assumes draws: "\<forall>k. 10000 \<le> randint k \<and> randint k \<le> 99999"
    and allowed: "mode \<in> set (allowedEventModes s)"
  shows "\<exists>newEventID s'.
           add randint timestamp mode params sampleName s = (Inr newEventID, s') \<and>
           0 \<le> newEventID \<and>
           newEventID \<notin> set (eventSchedule2 s) \<and>
           ((10000 \<le> newEventID \<and> newEventID \<le> 99999) \<or>
            (\<forall>j. 0 \<le> j \<and> j < newEventID \<longrightarrow> j \<in> set (eventSchedule2 s)))"
proof -
  let ?i = "new_event_id randint (eventSchedule2 s)"
  have first: "10000 \<le> randint 0 \<and> randint 0 \<le> 99999"
    using draws by blast
  from id_loop_range [OF draws first, of "eventSchedule2 s" 1]
  have range: "(10000 \<le> ?i \<and> ?i \<le> 99999) \<or> ?i = scan_from (eventSchedule2 s) 0"
    by (simp add: new_event_id_def)
  have nonneg: "0 \<le> ?i"
    using range scan_from_ge [of 0 "eventSchedule2 s"] by auto
  have least: "(10000 \<le> ?i \<and> ?i \<le> 99999) \<or>
               (\<forall>j. 0 \<le> j \<and> j < ?i \<longrightarrow> j \<in> set (eventSchedule2 s))"
    using range scan_from_below [of 0 _ "eventSchedule2 s"] by auto
  from add_allowed [OF allowed] nonneg least show ?thesis
    by (simp add: new_event_id_free)
qed

text \<open>
  The theorem on the table with the ids 12345 and 0, where all draws collide with 12345:
  the scan passes 0 and returns 1.
\<close>

theorem add_id_nonnegative_witness:
  "(\<forall>k. 10000 \<le> always 12345 k \<and> always 12345 k \<le> 99999) \<and>
   ''b'' \<in> set (allowedEventModes (snd (add (always 12345) 7200 ''r'' [] ''jazz'' (one_bell [])))) \<and>
   eventSchedule2 (snd (add (always 12345) 7200 ''r'' [] ''jazz'' (one_bell []))) = [12345, 0] \<and>
   fst (add (always 12345) 60 ''b'' [] [] (snd (add (always 12345) 7200 ''r'' [] ''jazz'' (one_bell []))))
     = Inr 1 \<and>
   (\<exists>newEventID s'.
      add (always 12345) 60 ''b'' [] [] (snd (add (always 12345) 7200 ''r'' [] ''jazz'' (one_bell [])))
        = (Inr newEventID, s') \<and>
      0 \<le> newEventID \<and>
      newEventID \<notin> set (eventSchedule2 (snd (add (always 12345) 7200 ''r'' [] ''jazz'' (one_bell [])))) \<and>
      ((10000 \<le> newEventID \<and> newEventID \<le> 99999) \<or>
       (\<forall>j. 0 \<le> j \<and> j < newEventID \<longrightarrow>
          j \<in> set (eventSchedule2 (snd (add (always 12345) 7200 ''r'' [] ''jazz'' (one_bell [])))))))"
proof -
  have h1: "\<forall>k. 10000 \<le> always 12345 k \<and> always 12345 k \<le> 99999"
    by (simp add: always_def)
  have h2: "''b'' \<in> set (allowedEventModes (snd (add (always 12345) 7200 ''r'' [] ''jazz'' (one_bell []))))"
    by (simp add: add_def one_bell_def defaultEventModes_def Let_def)
  have ids: "eventSchedule2 (snd (add (always 12345) 7200 ''r'' [] ''jazz'' (one_bell []))) = [12345, 0]"
    by (simp add: add_def one_bell_def defaultEventModes_def Let_def new_event_id_def always_def
          id_loop.simps scan_from.simps)
  have one: "fst (add (always 12345) 60 ''b'' [] [] (snd (add (always 12345) 7200 ''r'' [] ''jazz'' (one_bell []))))
     = Inr 1"
    using h2 by (simp add: add_allowed ids new_event_id_def always_def id_loop.simps scan_from.simps)
  from h1 h2 ids one add_id_nonnegative [OF h1 h2, of 60 "[]" "[]"]
  show ?thesis by blast
qed

section \<open>add with a mode that is not allowed\<close>

text \<open>
  C6. For every table state and every mode that is not in \<open>allowedEventModes\<close>, \<open>add\<close>
  raises \<open>ValueError\<close> and the whole object is as before the call: the three slots of
  \<open>eventSchedule\<close>, \<open>prevTimestamp\<close>, \<open>jsonTimings\<close>; nothing is appended.
\<close>

theorem add_invalid_mode:
  "mode \<notin> set (allowedEventModes s) \<Longrightarrow>
   add randint timestamp mode params sampleName s = (Inl ValueError, s)"
  by (simp add: add_def)

text \<open>The theorem at the mode \<open>x\<close>, which the default modes do not contain.\<close>

theorem add_invalid_mode_witness:
  "''x'' \<notin> set (allowedEventModes (one_bell [])) \<and>
   add (always 12345) 7200 ''x'' [] ''jazz'' (one_bell []) = (Inl ValueError, one_bell [])"
proof -
  have h: "''x'' \<notin> set (allowedEventModes (one_bell []))"
    by (simp add: one_bell_def defaultEventModes_def)
  from h add_invalid_mode [OF h, of "always 12345" 7200 "[]" "''jazz''"]
  show ?thesis by simp
qed

section \<open>remove\<close>

text \<open>
  C7. For every table state: if \<open>eventID\<close> is not in slot 2, \<open>remove\<close> raises
  \<open>ValueError\<close> and the object, hence each of the three slots, is unchanged. If it is
  present and the three slots are equally long (the table's alignment), \<open>remove\<close>
  succeeds, and with \<open>k\<close> the position of the first occurrence of \<open>eventID\<close> in slot 2,
  each of the three slots loses exactly its entry at position \<open>k\<close>: what is left is the
  entries before \<open>k\<close> followed by the entries after \<open>k\<close>, in their order.
\<close>
theorem remove_correct:
  "(eventID \<notin> set (eventSchedule2 s) \<longrightarrow> remove eventID s = (Inl ValueError, s)) \<and>
   (aligned s \<and> eventID \<in> set (eventSchedule2 s) \<longrightarrow>
      (\<exists>k<length (eventSchedule2 s).
          eventSchedule2 s ! k = eventID \<and>
          (\<forall>j<k. eventSchedule2 s ! j \<noteq> eventID) \<and>
          remove eventID s =
            (Inr (),
             s\<lparr>eventSchedule0 := take k (eventSchedule0 s) @ drop (Suc k) (eventSchedule0 s),
               eventSchedule1 := take k (eventSchedule1 s) @ drop (Suc k) (eventSchedule1 s),
               eventSchedule2 := take k (eventSchedule2 s) @ drop (Suc k) (eventSchedule2 s)\<rparr>)))"
proof (intro conjI impI)
  assume "eventID \<notin> set (eventSchedule2 s)"
  then show "remove eventID s = (Inl ValueError, s)"
    by (rule remove_absent)
next
  assume a: "aligned s \<and> eventID \<in> set (eventSchedule2 s)"
  then obtain k where k: "index_of eventID (eventSchedule2 s) = Some k"
    using index_of_None [of eventID "eventSchedule2 s"] by auto
  from index_of_Some [OF k] remove_present [OF _ k] a
  show "\<exists>k<length (eventSchedule2 s).
          eventSchedule2 s ! k = eventID \<and>
          (\<forall>j<k. eventSchedule2 s ! j \<noteq> eventID) \<and>
          remove eventID s =
            (Inr (),
             s\<lparr>eventSchedule0 := take k (eventSchedule0 s) @ drop (Suc k) (eventSchedule0 s),
               eventSchedule1 := take k (eventSchedule1 s) @ drop (Suc k) (eventSchedule1 s),
               eventSchedule2 := take k (eventSchedule2 s) @ drop (Suc k) (eventSchedule2 s)\<rparr>)"
    by blast
qed

text \<open>
  The theorem on a table of three events: removing the absent id 7, and removing the
  middle event.
\<close>

theorem remove_correct_witness:
  "7 \<notin> set (eventSchedule2 three_events) \<and>
   remove 7 three_events = (Inl ValueError, three_events) \<and>
   aligned three_events \<and> 20002 \<in> set (eventSchedule2 three_events) \<and>
   remove 20002 three_events =
     (Inr (), three_events\<lparr>eventSchedule0 := [3600, 10800],
                           eventSchedule1 := [''b:l3:bell1'', ''l::song''],
                           eventSchedule2 := [12345, 30003]\<rparr>)"
proof -
  have h1: "7 \<notin> set (eventSchedule2 three_events)"
    by (simp add: three_events_def)
  have h2: "aligned three_events \<and> 20002 \<in> set (eventSchedule2 three_events)"
    by (simp add: three_events_def aligned_def)
  from remove_correct [of 7 three_events] h1
  have r1: "remove 7 three_events = (Inl ValueError, three_events)"
    by blast
  from remove_correct [of 20002 three_events] h2
  obtain k where k: "k < length (eventSchedule2 three_events)"
      "eventSchedule2 three_events ! k = 20002"
      "remove 20002 three_events =
            (Inr (),
             three_events\<lparr>eventSchedule0 := take k (eventSchedule0 three_events) @ drop (Suc k) (eventSchedule0 three_events),
               eventSchedule1 := take k (eventSchedule1 three_events) @ drop (Suc k) (eventSchedule1 three_events),
               eventSchedule2 := take k (eventSchedule2 three_events) @ drop (Suc k) (eventSchedule2 three_events)\<rparr>)"
    by blast
  from k(1,2) have "k = 1"
    by (auto simp add: three_events_def less_Suc_eq nth_Cons')
  with k(3) have r2: "remove 20002 three_events =
     (Inr (), three_events\<lparr>eventSchedule0 := [3600, 10800],
                           eventSchedule1 := [''b:l3:bell1'', ''l::song''],
                           eventSchedule2 := [12345, 30003]\<rparr>)"
    by (simp add: three_events_def)
  from h1 h2 r1 r2 show ?thesis by blast
qed

section \<open>tick\<close>

text \<open>
  C10. For every table state, aligned or not, and whether or not the call raises, a
  \<open>tick\<close> call changes at most the cursor \<open>prevTimestamp\<close>: the three slots of
  \<open>eventSchedule\<close>, with their order, \<open>jsonTimings\<close> and \<open>allowedEventModes\<close> are the same
  after the call as before, however many events are due.
\<close>
theorem tick_frame:
  "snd (tick crrntTime s) = s\<lparr>prevTimestamp := prevTimestamp (snd (tick crrntTime s))\<rparr> \<and>
   eventSchedule0 (snd (tick crrntTime s)) = eventSchedule0 s \<and>
   eventSchedule1 (snd (tick crrntTime s)) = eventSchedule1 s \<and>
   eventSchedule2 (snd (tick crrntTime s)) = eventSchedule2 s \<and>
   jsonTimings (snd (tick crrntTime s)) = jsonTimings s \<and>
   allowedEventModes (snd (tick crrntTime s)) = allowedEventModes s"
  by (cases "tick_loop s (crrntTimestamp crrntTime) 0 (eventSchedule0 s) []")
     (simp_all add: tick_def Let_def)

lemma tick_loop_rows:
  assumes al: "aligned s"
  shows "ts = drop n (eventSchedule0 s) \<Longrightarrow>
     tick_loop s now n ts toExecute =
       Inr (toExecute @ map row_event (filter (due_row (prevTimestamp s) now)
              (zip ts (zip (drop n (eventSchedule1 s)) (drop n (eventSchedule2 s))))))"
proof (induction ts arbitrary: n toExecute)
  case Nil
  then show ?case by simp
next
  case (Cons t ts)
  from Cons.prems have n: "n < length (eventSchedule0 s)"
    by (metis drop_eq_Nil leI list.distinct(1))
  with al have n1: "n < length (eventSchedule1 s)" and n2: "n < length (eventSchedule2 s)"
    by (simp_all add: aligned_def)
  from Cons.prems n have t: "t = eventSchedule0 s ! n" and rest: "ts = drop (Suc n) (eventSchedule0 s)"
    by (simp_all add: Cons_nth_drop_Suc [symmetric])
  have d1: "drop n (eventSchedule1 s) = eventSchedule1 s ! n # drop (Suc n) (eventSchedule1 s)"
    using n1 by (simp add: Cons_nth_drop_Suc)
  have d2: "drop n (eventSchedule2 s) = eventSchedule2 s ! n # drop (Suc n) (eventSchedule2 s)"
    using n2 by (simp add: Cons_nth_drop_Suc)
  have ev: "event_tuple s t n = Inr (row_event (t, eventSchedule1 s ! n, eventSchedule2 s ! n))"
    using n1 n2 by (simp add: event_tuple_def getitem_def row_event_def)
  show ?case
    using Cons.IH [OF rest] by (simp add: d1 d2 ev due_row_def)
qed

lemma split_from_no_sep: "sep \<notin> set xs \<Longrightarrow> split_from sep cur xs = [cur @ xs]"
  by (induction xs arbitrary: cur) auto

lemma split_from_at_sep:
  "sep \<notin> set xs \<Longrightarrow> split_from sep cur (xs @ sep # rest) = (cur @ xs) # split_from sep [] rest"
  by (induction xs arbitrary: cur) auto

lemma str_split_three:
  assumes "CHR '':'' \<notin> set m" and "CHR '':'' \<notin> set p" and "CHR '':'' \<notin> set q"
  shows "str_split CHR '':'' (m @ CHR '':'' # p @ CHR '':'' # q) = [m, p, q]"
proof -
  have "split_from CHR '':'' [] (m @ CHR '':'' # (p @ CHR '':'' # q))
        = m # split_from CHR '':'' [] (p @ CHR '':'' # q)"
    using split_from_at_sep [OF assms(1), of "[]"] by simp
  also have "split_from CHR '':'' [] (p @ CHR '':'' # q) = p # split_from CHR '':'' [] q"
    using split_from_at_sep [OF assms(2), of "[]"] by simp
  also have "split_from CHR '':'' [] q = [q]"
    using split_from_no_sep [OF assms(3), of "[]"] by simp
  finally show ?thesis by (simp add: str_split_def)
qed

text \<open>
  C3. For every table state whose three slots are equally long (the table's alignment),
  with cursor \<open>prevTimestamp\<close> and the current weekly timestamp \<open>now\<close>: \<open>tick\<close> returns
  exactly the events whose timestamp \<open>t\<close> satisfies \<open>prevTimestamp < t \<le> now\<close>, each as the
  tuple \<open>(timestamp, [decoded pieces of the descriptor], eventID)\<close>, in table order; the
  list is empty when \<open>now \<le> prevTimestamp\<close> (no time elapsed, or the week wrapped
  around); after the call \<open>prevTimestamp\<close> is \<open>now\<close>. For a descriptor
  \<open>mode:params:sampleName\<close> whose three fields hold no \<open>:\<close>, as \<open>add\<close> stores them, the
  pieces are \<open>[decoded mode, decoded params, decoded sampleName]\<close>.
\<close>
theorem tick_due_events:
  assumes "aligned s"
  shows "tick crrntTime s =
           (Inr (due_events s (crrntTimestamp crrntTime)),
            s\<lparr>prevTimestamp := crrntTimestamp crrntTime\<rparr>) \<and>
         (crrntTimestamp crrntTime \<le> prevTimestamp s \<longrightarrow> fst (tick crrntTime s) = Inr []) \<and>
         prevTimestamp (snd (tick crrntTime s)) = crrntTimestamp crrntTime \<and>
         (CHR '':'' \<notin> set mode \<and> CHR '':'' \<notin> set params \<and> CHR '':'' \<notin> set sampleName \<longrightarrow>
            row_event (t, mode @ '':'' @ params @ '':'' @ sampleName, eid) =
              (t, [decodeSafeEventDSC mode, decodeSafeEventDSC params,
                   decodeSafeEventDSC sampleName], eid))"
proof -
  let ?now = "crrntTimestamp crrntTime"
  have loop: "tick_loop s ?now 0 (eventSchedule0 s) [] = Inr (due_events s ?now)"
    using tick_loop_rows [OF assms, of "eventSchedule0 s" 0 ?now "[]"]
    by (simp add: due_events_def)
  then have whole: "tick crrntTime s = (Inr (due_events s ?now), s\<lparr>prevTimestamp := ?now\<rparr>)"
    by (simp add: tick_def Let_def)
  have none: "?now \<le> prevTimestamp s \<Longrightarrow> due_events s ?now = []"
    by (auto simp add: due_events_def due_row_def filter_empty_conv)
  have row: "CHR '':'' \<notin> set mode \<and> CHR '':'' \<notin> set params \<and> CHR '':'' \<notin> set sampleName \<Longrightarrow>
            row_event (t, mode @ '':'' @ params @ '':'' @ sampleName, eid) =
              (t, [decodeSafeEventDSC mode, decodeSafeEventDSC params,
                   decodeSafeEventDSC sampleName], eid)"
    by (simp add: row_event_def str_split_three)
  from whole none row show ?thesis by simp
qed

text \<open>
  The theorem on the table of three events with the cursor at 3600: at 02:00:00 only the
  event at 7200 is due (the one at 3600 is at the cursor, the one at 10800 is still to
  come); at 00:00:00 the clock is behind the cursor and nothing is due.
\<close>

theorem tick_due_events_witness:
  "aligned three_events \<and>
   tick monday_0200 three_events =
     (Inr [(7200, [''r'', [], ''jazz''], 20002)], three_events\<lparr>prevTimestamp := 7200\<rparr>) \<and>
   crrntTimestamp monday_midnight \<le> prevTimestamp three_events \<and>
   fst (tick monday_midnight three_events) = Inr [] \<and>
   prevTimestamp (snd (tick monday_midnight three_events)) = 0 \<and>
   CHR '':'' \<notin> set ''b'' \<and> CHR '':'' \<notin> set ''l3'' \<and> CHR '':'' \<notin> set ''bell1'' \<and>
   row_event (3600, ''b:l3:bell1'', 12345) = (3600, [''b'', ''l3'', ''bell1''], 12345)"
proof -
  have behind: "crrntTimestamp monday_midnight \<le> prevTimestamp three_events"
    by (simp add: crrntTimestamp_def monday_midnight_def three_events_def)
  have zero: "crrntTimestamp monday_midnight = 0"
    by (simp add: crrntTimestamp_def monday_midnight_def)
  have colons: "CHR '':'' \<notin> set ''b'' \<and> CHR '':'' \<notin> set ''l3'' \<and> CHR '':'' \<notin> set ''bell1''"
    by simp
  have dec: "decodeSafeEventDSC ''b'' = ''b''" "decodeSafeEventDSC ''l3'' = ''l3''"
    "decodeSafeEventDSC ''bell1'' = ''bell1''"
    by (simp_all add: decodeSafeEventDSC_def)
  have h: "aligned three_events"
    by (simp add: three_events_def aligned_def)
  have now: "crrntTimestamp monday_0200 = 7200"
    by (simp add: crrntTimestamp_def monday_0200_def)
  have due: "due_events three_events 7200 = [(7200, [''r'', [], ''jazz''], 20002)]"
    by (simp add: due_events_def due_row_def row_event_def three_events_def str_split_def
          decodeSafeEventDSC_def)
  from tick_due_events [OF h, of monday_0200] have first:
    "tick monday_0200 three_events =
       (Inr (due_events three_events (crrntTimestamp monday_0200)),
        three_events\<lparr>prevTimestamp := crrntTimestamp monday_0200\<rparr>)"
    by blast
  from tick_due_events [OF h, of monday_midnight] behind have
    "fst (tick monday_midnight three_events) = Inr []"
    "prevTimestamp (snd (tick monday_midnight three_events)) = crrntTimestamp monday_midnight"
    by blast+
  with zero have second:
    "fst (tick monday_midnight three_events) = Inr []"
    "prevTimestamp (snd (tick monday_midnight three_events)) = 0"
    by simp_all
  from tick_due_events [OF h, of monday_midnight "''b''" "''l3''" "''bell1''" 3600 12345]
    colons dec
  have third: "row_event (3600, ''b:l3:bell1'', 12345) = (3600, [''b'', ''l3'', ''bell1''], 12345)"
    by simp
  from h now due first second behind colons third show ?thesis by simp
qed

section \<open>getEvent\<close>

lemma selected_zero: "selected (Some 0) xs = None"
  by (simp add: selected_def)

lemma selected_None: "selected None xs = None"
  by (simp add: selected_def)

lemma match_row_triple:
  "match_row re_search rx (t, dsc, eid) \<longleftrightarrow> re_search rx dsc = Some True"
  by (simp add: match_row_def)

lemma regex_loop_rows:
  assumes al: "aligned s"
    and defined: "\<forall>dsc\<in>set (eventSchedule1 s). re_search rx dsc \<noteq> None"
  shows "k = length (eventSchedule0 s) - n \<Longrightarrow> n \<le> length (eventSchedule0 s) \<Longrightarrow>
     regex_loop re_search rx s [n ..< length (eventSchedule0 s)] r =
       Inr (r @ map row_event (filter (match_row re_search rx)
              (zip (drop n (eventSchedule0 s))
                 (zip (drop n (eventSchedule1 s)) (drop n (eventSchedule2 s))))))"
proof (induction k arbitrary: n r)
  case 0
  then show ?case by simp
next
  case (Suc k)
  from Suc.prems have n: "n < length (eventSchedule0 s)" by simp
  with al have n1: "n < length (eventSchedule1 s)" and n2: "n < length (eventSchedule2 s)"
    by (simp_all add: aligned_def)
  have upt: "[n ..< length (eventSchedule0 s)] = n # [Suc n ..< length (eventSchedule0 s)]"
    using n by (simp add: upt_conv_Cons)
  have d0: "drop n (eventSchedule0 s) = eventSchedule0 s ! n # drop (Suc n) (eventSchedule0 s)"
    using n by (simp add: Cons_nth_drop_Suc)
  have d1: "drop n (eventSchedule1 s) = eventSchedule1 s ! n # drop (Suc n) (eventSchedule1 s)"
    using n1 by (simp add: Cons_nth_drop_Suc)
  have d2: "drop n (eventSchedule2 s) = eventSchedule2 s ! n # drop (Suc n) (eventSchedule2 s)"
    using n2 by (simp add: Cons_nth_drop_Suc)
  have ev: "event_tuple s (eventSchedule0 s ! n) n
              = Inr (row_event (eventSchedule0 s ! n, eventSchedule1 s ! n, eventSchedule2 s ! n))"
    using n1 n2 by (simp add: event_tuple_def getitem_def row_event_def)
  from defined n1 obtain m where m: "re_search rx (eventSchedule1 s ! n) = Some m"
    by (metis nth_mem option.exhaust)
  have IH: "regex_loop re_search rx s [Suc n ..< length (eventSchedule0 s)] r' =
       Inr (r' @ map row_event (filter (match_row re_search rx)
              (zip (drop (Suc n) (eventSchedule0 s))
                 (zip (drop (Suc n) (eventSchedule1 s)) (drop (Suc n) (eventSchedule2 s))))))"
    for r'
    using Suc.IH [of "Suc n" r'] Suc.prems n by simp
  show ?case
    by (cases m)
       (simp_all add: upt d0 d1 d2 ev m IH n n1 getitem_def match_row_triple del: upt.simps)
qed

lemma selected_hit: "v \<noteq> 0 \<Longrightarrow> v \<in> set xs \<Longrightarrow> selected (Some v) xs = Some v"
  by (simp add: selected_def)

lemma one_event_at:
  assumes al: "aligned s" and k: "k < length (eventSchedule0 s)"
  shows "one_event s (Some k) =
     Inr (Some [(eventSchedule0 s ! k,
                 map decodeSafeEventDSC (str_split CHR '':'' (eventSchedule1 s ! k)),
                 eventSchedule2 s ! k)])"
  using al k by (simp add: one_event_def event_tuple_def getitem_def aligned_def)

text \<open>
  C9. For every table state, \<open>getEvent\<close> with \<open>eventID == 0\<close> answers as if no \<open>eventID\<close>
  had been given, and with \<open>eventTimestamp == 0\<close> as if no \<open>eventTimestamp\<close> had been
  given, also when an event with id 0 or timestamp 0 is in the table. What that answer
  is, on an aligned table: with \<open>eventID == 0\<close> and a timestamp other than 0 that is in
  the table, the one event at the first position of that timestamp; with
  \<open>eventTimestamp == 0\<close> and an id other than 0 that is in the table, the one event with
  that id; with both selectors 0 or missing and a pattern that is not empty (and on
  which \<open>re.search\<close> does not raise), the list of all events whose descriptor matches, in
  table order, which may be empty; with both selectors 0 or missing and no pattern, or
  an empty one, \<open>None\<close>. \<open>None\<close> is not the empty list.
\<close>

theorem getEvent_zero_selector:
  "getEvent re_search (Some 0) eventTimestamp eventDscRegex s
     = getEvent re_search None eventTimestamp eventDscRegex s \<and>
   getEvent re_search eventID (Some 0) eventDscRegex s
     = getEvent re_search eventID None eventDscRegex s \<and>
   (aligned s \<and> t \<noteq> 0 \<and> t \<in> set (eventSchedule0 s) \<longrightarrow>
      (\<exists>k<length (eventSchedule0 s).
          eventSchedule0 s ! k = t \<and> (\<forall>j<k. eventSchedule0 s ! j \<noteq> t) \<and>
          getEvent re_search (Some 0) (Some t) eventDscRegex s =
            Inr (Some [(t, map decodeSafeEventDSC (str_split CHR '':'' (eventSchedule1 s ! k)),
                        eventSchedule2 s ! k)]))) \<and>
   (aligned s \<and> eid \<noteq> 0 \<and> eid \<in> set (eventSchedule2 s) \<longrightarrow>
      (\<exists>k<length (eventSchedule2 s).
          eventSchedule2 s ! k = eid \<and> (\<forall>j<k. eventSchedule2 s ! j \<noteq> eid) \<and>
          getEvent re_search (Some eid) (Some 0) eventDscRegex s =
            Inr (Some [(eventSchedule0 s ! k,
                        map decodeSafeEventDSC (str_split CHR '':'' (eventSchedule1 s ! k)),
                        eid)]))) \<and>
   (aligned s \<and> rx \<noteq> [] \<and> (\<forall>dsc\<in>set (eventSchedule1 s). re_search rx dsc \<noteq> None) \<longrightarrow>
      getEvent re_search (Some 0) (Some 0) (Some rx) s = Inr (Some (matching_events re_search rx s)) \<and>
      getEvent re_search (Some 0) None (Some rx) s = Inr (Some (matching_events re_search rx s)) \<and>
      getEvent re_search None (Some 0) (Some rx) s = Inr (Some (matching_events re_search rx s))) \<and>
   getEvent re_search (Some 0) (Some 0) None s = Inr None \<and>
   getEvent re_search (Some 0) None None s = Inr None \<and>
   getEvent re_search None (Some 0) None s = Inr None \<and>
   getEvent re_search (Some 0) (Some 0) (Some []) s = Inr None \<and>
   (Inr None :: error + event list option) \<noteq> Inr (Some [])"
proof -
  have id0: "getEvent re_search (Some 0) ts rx' s = getEvent re_search None ts rx' s" for ts rx'
    by (simp add: getEvent_def selected_zero selected_None)
  have ts0: "getEvent re_search eid' (Some 0) rx' s = getEvent re_search eid' None rx' s" for eid' rx'
    by (cases "selected eid' (eventSchedule2 s)")
       (simp_all add: getEvent_def selected_zero selected_None)
  have by_ts: "\<exists>k<length (eventSchedule0 s).
          eventSchedule0 s ! k = t \<and> (\<forall>j<k. eventSchedule0 s ! j \<noteq> t) \<and>
          getEvent re_search (Some 0) (Some t) eventDscRegex s =
            Inr (Some [(t, map decodeSafeEventDSC (str_split CHR '':'' (eventSchedule1 s ! k)),
                        eventSchedule2 s ! k)])"
    if a: "aligned s \<and> t \<noteq> 0 \<and> t \<in> set (eventSchedule0 s)"
  proof -
    from a obtain k where k: "index_of t (eventSchedule0 s) = Some k"
      using index_of_None [of t "eventSchedule0 s"] by auto
    from index_of_Some [OF k] have kk: "k < length (eventSchedule0 s)"
      "eventSchedule0 s ! k = t" "\<forall>j<k. eventSchedule0 s ! j \<noteq> t"
      by simp_all
    from a have "getEvent re_search (Some 0) (Some t) eventDscRegex s = one_event s (Some k)"
      by (simp add: getEvent_def selected_zero selected_hit k)
    with one_event_at [of s k] a kk show ?thesis by auto
  qed
  have by_id: "\<exists>k<length (eventSchedule2 s).
          eventSchedule2 s ! k = eid \<and> (\<forall>j<k. eventSchedule2 s ! j \<noteq> eid) \<and>
          getEvent re_search (Some eid) (Some 0) eventDscRegex s =
            Inr (Some [(eventSchedule0 s ! k,
                        map decodeSafeEventDSC (str_split CHR '':'' (eventSchedule1 s ! k)),
                        eid)])"
    if a: "aligned s \<and> eid \<noteq> 0 \<and> eid \<in> set (eventSchedule2 s)"
  proof -
    from a obtain k where k: "index_of eid (eventSchedule2 s) = Some k"
      using index_of_None [of eid "eventSchedule2 s"] by auto
    from index_of_Some [OF k] have kk: "k < length (eventSchedule2 s)"
      "eventSchedule2 s ! k = eid" "\<forall>j<k. eventSchedule2 s ! j \<noteq> eid"
      by simp_all
    from a kk have k0: "k < length (eventSchedule0 s)" by (simp add: aligned_def)
    from a have "getEvent re_search (Some eid) (Some 0) eventDscRegex s = one_event s (Some k)"
      by (simp add: getEvent_def selected_hit k)
    with one_event_at [of s k] a kk k0 show ?thesis by auto
  qed
  have by_rx: "getEvent re_search None None (Some rx) s = Inr (Some (matching_events re_search rx s))"
    if a: "aligned s \<and> rx \<noteq> [] \<and> (\<forall>dsc\<in>set (eventSchedule1 s). re_search rx dsc \<noteq> None)"
  proof -
    from a regex_loop_rows [of s re_search rx "length (eventSchedule0 s)" 0 "[]"]
    have "regex_loop re_search rx s [0 ..< length (eventSchedule0 s)] [] =
            Inr (matching_events re_search rx s)"
      by (simp add: matching_events_def)
    with a show ?thesis
      by (simp add: getEvent_def selected_None given_regex_def)
  qed
  have none: "getEvent re_search None None None s = Inr None"
    by (simp add: getEvent_def selected_None given_regex_def)
  have empty: "getEvent re_search None None (Some []) s = Inr None"
    by (simp add: getEvent_def selected_None given_regex_def)
  from by_ts by_id by_rx show ?thesis
    by (simp add: id0 ts0 none empty)
qed

text \<open>
  The theorem on a table whose first event has id 0 and timestamp 0: a selector 0 finds
  nothing by itself; with it, the timestamp 3600 or the id 12345 finds the second
  event, the pattern \<open>bell\<close> finds the first, the pattern \<open>xyz\<close> finds nothing and gives
  the empty list, and without a pattern the result is \<open>None\<close>.
\<close>

theorem getEvent_zero_selector_witness:
  "aligned zero_and_jazz \<and>
   0 \<in> set (eventSchedule2 zero_and_jazz) \<and> 0 \<in> set (eventSchedule0 zero_and_jazz) \<and>
   (3600 :: int) \<noteq> 0 \<and> 3600 \<in> set (eventSchedule0 zero_and_jazz) \<and>
   getEvent literal_search (Some 0) (Some 3600) None zero_and_jazz
     = Inr (Some [(3600, [''r'', [], ''jazz''], 12345)]) \<and>
   (12345 :: int) \<noteq> 0 \<and> 12345 \<in> set (eventSchedule2 zero_and_jazz) \<and>
   getEvent literal_search (Some 12345) (Some 0) None zero_and_jazz
     = Inr (Some [(3600, [''r'', [], ''jazz''], 12345)]) \<and>
   getEvent literal_search (Some 0) (Some 0) (Some ''bell'') zero_and_jazz
     = Inr (Some [(0, [''b'', ''l3'', ''bell1''], 0)]) \<and>
   getEvent literal_search (Some 0) (Some 0) (Some ''xyz'') zero_and_jazz = Inr (Some []) \<and>
   getEvent literal_search (Some 0) (Some 0) None zero_and_jazz = Inr None"
proof -
  have al: "aligned zero_and_jazz"
    by (simp add: zero_and_jazz_def aligned_def)
  have zeros: "0 \<in> set (eventSchedule2 zero_and_jazz) \<and> 0 \<in> set (eventSchedule0 zero_and_jazz)"
    by (simp add: zero_and_jazz_def)
  have h_ts: "aligned zero_and_jazz \<and> (3600 :: int) \<noteq> 0 \<and> 3600 \<in> set (eventSchedule0 zero_and_jazz)"
    by (simp add: zero_and_jazz_def aligned_def)
  have h_id: "aligned zero_and_jazz \<and> (12345 :: int) \<noteq> 0 \<and> 12345 \<in> set (eventSchedule2 zero_and_jazz)"
    by (simp add: zero_and_jazz_def aligned_def)
  have h_rx: "aligned zero_and_jazz \<and> rx \<noteq> [] \<and>
              (\<forall>dsc\<in>set (eventSchedule1 zero_and_jazz). literal_search rx dsc \<noteq> None)"
    if "rx \<noteq> []" for rx
    using that al by (simp add: literal_search_def)
  have dec: "decodeSafeEventDSC ''r'' = ''r''" "decodeSafeEventDSC [] = []"
    "decodeSafeEventDSC ''jazz'' = ''jazz''" "decodeSafeEventDSC ''b'' = ''b''"
    "decodeSafeEventDSC ''l3'' = ''l3''" "decodeSafeEventDSC ''bell1'' = ''bell1''"
    by (simp_all add: decodeSafeEventDSC_def)
  from getEvent_zero_selector [of literal_search None None zero_and_jazz None 3600 12345 "''bell''"] h_ts
  obtain k where k: "k < length (eventSchedule0 zero_and_jazz)"
      "eventSchedule0 zero_and_jazz ! k = 3600"
      "getEvent literal_search (Some 0) (Some 3600) None zero_and_jazz =
         Inr (Some [(3600, map decodeSafeEventDSC (str_split CHR '':'' (eventSchedule1 zero_and_jazz ! k)),
                     eventSchedule2 zero_and_jazz ! k)])"
    by blast
  from k(1,2) have "k = 1"
    by (auto simp add: zero_and_jazz_def less_Suc_eq nth_Cons')
  with k(3) have r_ts: "getEvent literal_search (Some 0) (Some 3600) None zero_and_jazz
     = Inr (Some [(3600, [''r'', [], ''jazz''], 12345)])"
    by (simp add: zero_and_jazz_def str_split_def dec)
  from getEvent_zero_selector [of literal_search None None zero_and_jazz None 3600 12345 "''bell''"] h_id
  obtain i where i: "i < length (eventSchedule2 zero_and_jazz)"
      "eventSchedule2 zero_and_jazz ! i = 12345"
      "getEvent literal_search (Some 12345) (Some 0) None zero_and_jazz =
         Inr (Some [(eventSchedule0 zero_and_jazz ! i,
                     map decodeSafeEventDSC (str_split CHR '':'' (eventSchedule1 zero_and_jazz ! i)),
                     12345)])"
    by blast
  from i(1,2) have "i = 1"
    by (auto simp add: zero_and_jazz_def less_Suc_eq nth_Cons')
  with i(3) have r_id: "getEvent literal_search (Some 12345) (Some 0) None zero_and_jazz
     = Inr (Some [(3600, [''r'', [], ''jazz''], 12345)])"
    by (simp add: zero_and_jazz_def str_split_def dec)
  have m_bell: "matching_events literal_search ''bell'' zero_and_jazz = [(0, [''b'', ''l3'', ''bell1''], 0)]"
    by (simp add: matching_events_def match_row_triple literal_search_def zero_and_jazz_def
          row_event_def str_split_def dec)
  have m_xyz: "matching_events literal_search ''xyz'' zero_and_jazz = []"
    by (simp add: matching_events_def match_row_triple literal_search_def zero_and_jazz_def)
  from getEvent_zero_selector [of literal_search None None zero_and_jazz None 3600 12345 "''bell''"]
    h_rx [of "''bell''"] m_bell
  have r_bell: "getEvent literal_search (Some 0) (Some 0) (Some ''bell'') zero_and_jazz
     = Inr (Some [(0, [''b'', ''l3'', ''bell1''], 0)])"
    by simp
  from getEvent_zero_selector [of literal_search None None zero_and_jazz None 3600 12345 "''xyz''"]
    h_rx [of "''xyz''"] m_xyz
  have r_xyz: "getEvent literal_search (Some 0) (Some 0) (Some ''xyz'') zero_and_jazz = Inr (Some [])"
    by simp
  from getEvent_zero_selector [of literal_search None None zero_and_jazz None 3600 12345 "''bell''"]
  have r_none: "getEvent literal_search (Some 0) (Some 0) None zero_and_jazz = Inr None"
    by blast
  from al zeros h_ts h_id r_ts r_id r_bell r_xyz r_none show ?thesis
    by simp
qed

section \<open>exportTimings and importTimings\<close>


text \<open>Equal slot values are element-for-element equal lists.\<close>

lemma slots_of_inject:
  "slots_of s = slots_of s' \<longleftrightarrow>
     eventSchedule0 s = eventSchedule0 s' \<and> eventSchedule1 s = eventSchedule1 s' \<and>
     eventSchedule2 s = eventSchedule2 s'"
proof -
  have "inj PInt" and "inj PStr"
    by (simp_all add: inj_def)
  then show ?thesis
    by (auto simp add: slots_of_def inj_map_eq_map)
qed








text \<open>
  A failing import is not atomic. With the pending form \<open>[[1], [2]]\<close>, an array of
  length 2, \<open>importTimings\<close> raises \<open>IndexError\<close> at \<open>tData[2]\<close>, after slots 0 and 1 have
  been replaced.
\<close>

theorem import_partial:
  "importTimings loads_sample (one_bell ''[[1], [2]]'')
     = (Inl IndexError, (PList [PInt 1], PList [PInt 2], PList [PInt 12345])) \<and>
   slots_of (one_bell ''[[1], [2]]'')
     = (PList [PInt 3600], PList [PStr ''b:l3:bell1''], PList [PInt 12345])"
  by (simp add: importTimings_def loads_sample_def slots_of_def one_bell_def)

text \<open>
  C2, amended. For every table state: \<open>importTimings\<close> raises and leaves all three slots
  as they were when the pending form is unparseable, or when its parsed value has no
  element 0 (\<open>tData[0]\<close> raises). When the parsed value is an array of length 1 it raises
  \<open>IndexError\<close> with slot 0 replaced and slots 1, 2 as before; when it is an array of
  length 2 it raises \<open>IndexError\<close> with slots 0, 1 replaced and slot 2 as before.
\<close>
theorem import_failure:
  "(loads (jsonTimings s) = None \<longrightarrow>
      importTimings loads s = (Inl JSONDecodeError, slots_of s)) \<and>
   (loads (jsonTimings s) = Some tData \<and> subscript tData 0 = Inl e \<longrightarrow>
      importTimings loads s = (Inl e, slots_of s)) \<and>
   (loads (jsonTimings s) = Some (PList [v0]) \<longrightarrow>
      importTimings loads s = (Inl IndexError, (v0, snd (slots_of s)))) \<and>
   (loads (jsonTimings s) = Some (PList [v0, v1]) \<longrightarrow>
      importTimings loads s = (Inl IndexError, (v0, v1, snd (snd (slots_of s)))))"
  by (simp add: importTimings_def slots_of_def)

text \<open>The parsed values without an element 0: all but the non-empty lists and strings.\<close>

lemma subscript_0_fails:
  "(\<exists>e. subscript tData 0 = Inl e) \<longleftrightarrow> tData \<notin> {PList xs | xs. xs \<noteq> []} \<union> {PStr cs | cs. cs \<noteq> []}"
  by (cases tData) auto

text \<open>
  An array of three or more elements is imported without an error, whatever its elements
  are: nothing checks that they are arrays, or equally long.
\<close>

lemma import_accepts_three_elements:
  "loads (jsonTimings s) = Some (PList (v0 # v1 # v2 # others)) \<Longrightarrow>
   importTimings loads s = (Inr (), (v0, v1, v2))"
  by (simp add: importTimings_def slots_of_def)

text \<open>
  The theorem on the pending forms \<open>oops\<close> (not JSON), \<open>[]\<close>, \<open>[[1]]\<close> and \<open>[[1], [2]]\<close>.
\<close>

theorem import_failure_witness:
  "loads_sample (jsonTimings (one_bell ''oops'')) = None \<and>
   importTimings loads_sample (one_bell ''oops'')
     = (Inl JSONDecodeError, slots_of (one_bell ''oops'')) \<and>
   loads_sample (jsonTimings (one_bell ''[]'')) = Some (PList []) \<and>
   subscript (PList []) 0 = Inl IndexError \<and>
   importTimings loads_sample (one_bell ''[]'') = (Inl IndexError, slots_of (one_bell ''[]'')) \<and>
   loads_sample (jsonTimings (one_bell ''[[1]]'')) = Some (PList [PList [PInt 1]]) \<and>
   importTimings loads_sample (one_bell ''[[1]]'')
     = (Inl IndexError, (PList [PInt 1], snd (slots_of (one_bell ''[[1]]'')))) \<and>
   loads_sample (jsonTimings (one_bell ''[[1], [2]]'')) = Some (PList [PList [PInt 1], PList [PInt 2]]) \<and>
   importTimings loads_sample (one_bell ''[[1], [2]]'')
     = (Inl IndexError, (PList [PInt 1], PList [PInt 2], snd (snd (slots_of (one_bell ''[[1], [2]]'')))))"
proof -
  have h1: "loads_sample (jsonTimings (one_bell ''oops'')) = None"
    by (simp add: loads_sample_def one_bell_def one_bell_json_def)
  have h2: "loads_sample (jsonTimings (one_bell ''[]'')) = Some (PList []) \<and>
            subscript (PList []) 0 = Inl IndexError"
    by (simp add: loads_sample_def one_bell_def)
  have h3: "loads_sample (jsonTimings (one_bell ''[[1]]'')) = Some (PList [PList [PInt 1]])"
    by (simp add: loads_sample_def one_bell_def)
  have h4: "loads_sample (jsonTimings (one_bell ''[[1], [2]]''))
              = Some (PList [PList [PInt 1], PList [PInt 2]])"
    by (simp add: loads_sample_def one_bell_def)
  from h1 h2 h3 h4
    import_failure [of loads_sample "one_bell ''oops''"]
    import_failure [of loads_sample "one_bell ''[]''" "PList []" IndexError]
    import_failure [of loads_sample "one_bell ''[[1]]''" _ _ "PList [PInt 1]"]
    import_failure [of loads_sample "one_bell ''[[1], [2]]''" _ _ "PList [PInt 1]" "PList [PInt 2]"]
  show ?thesis by blast
qed

end
